theory Spec2Isabelle
  imports Complex_Main "HOL-Library.Multiset" "HOL-Library.AList"
begin

section \<open>Python values and exceptions\<close>

text \<open>
  The script \<^verbatim>\<open>peft_lora_embedding_semantic_search.py\<close> is modelled function by
  function.  An exception that leaves a function is a value of \<open>py_error\<close>; a
  function that can raise returns \<open>py_error + 'a\<close> with \<open>Inl\<close> for the exception.
  \<open>SystemExit 2\<close> is what \<^verbatim>\<open>argparse\<close> raises after printing a usage error.
\<close>

datatype py_error =
    AttributeError
  | ValueError
  | ZeroDivisionError
  | IndexError
  | TypeError
  | RuntimeError
  | AssertionError
  | SystemExit nat

datatype pyval = PNone | PBool bool | PInt int | PFloat real | PStr string

text \<open>Python truthiness of the values that occur as attributes of the namespace.\<close>

fun truthy :: "pyval \<Rightarrow> bool" where
  "truthy PNone = False"
| "truthy (PBool b) = b"
| "truthy (PInt i) = (i \<noteq> 0)"
| "truthy (PFloat x) = (x \<noteq> 0)"
| "truthy (PStr s) = (s \<noteq> [])"

section \<open>String operations of the standard library\<close>

text \<open>\<^verbatim>\<open>s.rfind(c)\<close> for a single character: the highest index, or \<open>-1\<close>.\<close>

definition rfind :: "char \<Rightarrow> string \<Rightarrow> int" where
  "rfind c s =
     (case filter (\<lambda>i. s ! i = c) (rev [0..<length s]) of
        [] \<Rightarrow> - 1
      | i # _ \<Rightarrow> int i)"

text \<open>\<^verbatim>\<open>posixpath.basename\<close>: \<^verbatim>\<open>i = p.rfind('/') + 1; return p[i:]\<close>.\<close>

definition basename :: "string \<Rightarrow> string" where
  "basename p = drop (nat (rfind CHR ''/'' p + 1)) p"

text \<open>
  \<^verbatim>\<open>os.path.splitext(p)[0]\<close>, after \<^verbatim>\<open>genericpath._splitext\<close>: the text before the
  last dot, when that dot comes after the last separator and some character between the
  separator and the dot is not a dot; the whole of \<open>p\<close> otherwise.
\<close>

definition splitext_root :: "string \<Rightarrow> string" where
  "splitext_root p =
     (let sepIndex = rfind CHR ''/'' p;
          dotIndex = rfind CHR ''.'' p
      in if dotIndex > sepIndex \<and>
            list_ex (\<lambda>i. p ! i \<noteq> CHR ''.'') [nat (sepIndex + 1)..<nat dotIndex]
         then take (nat dotIndex) p
         else p)"

text \<open>\<^verbatim>\<open>s.startswith(t)\<close> and the substring test \<^verbatim>\<open>t in s\<close>.\<close>

definition startswith :: "string \<Rightarrow> string \<Rightarrow> bool" where
  "startswith s t = (take (length t) s = t)"

fun str_contains :: "string \<Rightarrow> string \<Rightarrow> bool" where
  "str_contains t [] = (t = [])"
| "str_contains t (c # cs) = (startswith (c # cs) t \<or> str_contains t cs)"

text \<open>
  \<^verbatim>\<open>s.replace(old, new)\<close>: every occurrence of \<open>old\<close>, found from the left without
  overlap, is replaced.  For the empty \<open>old\<close> Python puts \<open>new\<close> before every
  character and at the end.
\<close>

function replace_ne :: "string \<Rightarrow> string \<Rightarrow> string \<Rightarrow> string" where
  "replace_ne old new [] = []"
| "replace_ne old new (c # cs) =
     (if old \<noteq> [] \<and> startswith (c # cs) old
      then new @ replace_ne old new (drop (length old) (c # cs))
      else c # replace_ne old new cs)"
  by pat_completeness auto
termination
  by (relation "measure (\<lambda>(old, new, s). length s)") (auto simp: Suc_le_eq)

definition py_replace :: "string \<Rightarrow> string \<Rightarrow> string \<Rightarrow> string" where
  "py_replace s old new =
     (if old = [] then new @ concat (map (\<lambda>c. c # new) s) else replace_ne old new s)"

text \<open>
  \<^verbatim>\<open>int(s)\<close> on a string, base ten: surrounding white space is stripped, one sign is
  allowed, then decimal digits, where single underscores may stand between digits.
  Anything else raises \<^verbatim>\<open>ValueError\<close>.  Characters are bytes here, so the digits and
  spaces outside ASCII that Python also accepts are not covered.
\<close>

definition is_digit :: "char \<Rightarrow> bool" where
  "is_digit c = (48 \<le> (of_char c :: nat) \<and> (of_char c :: nat) \<le> 57)"

definition digit_val :: "char \<Rightarrow> int" where
  "digit_val c = int (of_char c) - 48"

definition is_space :: "char \<Rightarrow> bool" where
  "is_space c = ((of_char c :: nat) \<in> {9, 10, 11, 12, 13, 28, 29, 30, 31, 32})"

definition strip :: "string \<Rightarrow> string" where
  "strip s = rev (dropWhile is_space (rev (dropWhile is_space s)))"

definition dec_value :: "string \<Rightarrow> int" where
  "dec_value ds = foldl (\<lambda>a c. 10 * a + digit_val c) 0 ds"

fun no_double_underscore :: "string \<Rightarrow> bool" where
  "no_double_underscore (a # b # cs) =
     (\<not> (a = CHR ''_'' \<and> b = CHR ''_'') \<and> no_double_underscore (b # cs))"
| "no_double_underscore _ = True"

definition valid_digits :: "string \<Rightarrow> bool" where
  "valid_digits body =
     (body \<noteq> [] \<and> is_digit (hd body) \<and> is_digit (last body) \<and>
      list_all (\<lambda>c. is_digit c \<or> c = CHR ''_'') body \<and> no_double_underscore body)"

definition py_int :: "string \<Rightarrow> py_error + int" where
  "py_int s =
     (let t = strip s;
          neg = (t \<noteq> [] \<and> hd t = CHR ''-'');
          body = (if t \<noteq> [] \<and> (hd t = CHR ''-'' \<or> hd t = CHR ''+'') then tl t else t)
      in if valid_digits body
         then Inr ((if neg then - 1 else 1) * dec_value (filter (\<lambda>c. c \<noteq> CHR ''_'') body))
         else Inl ValueError)"

section \<open>The command line: \<^verbatim>\<open>parse_args\<close>\<close>

text \<open>
  The parser is a table of its \<^verbatim>\<open>add_argument\<close> calls, in the order of the source.
  An option is a string, an integer (\<^verbatim>\<open>type=int\<close>), a float (\<^verbatim>\<open>type=float\<close>) or a
  \<^verbatim>\<open>store_true\<close> flag; it may have a default, a list of choices, and may be required.
  The command line is given as the argument string of every option that occurs on it and
  the set of flags that occur on it (abbreviated and repeated options and unknown
  options are not modelled).  Python's \<^verbatim>\<open>float\<close> is a parameter.  Every error of the
  parser ends the program with \<^verbatim>\<open>SystemExit(2)\<close>.
\<close>

datatype argkind = KStr | KInt | KFloat | KFlag

record optspec =
  dest :: string
  kind :: argkind
  dflt :: pyval
  choices :: "string list option"
  required :: bool

definition opt :: "string \<Rightarrow> argkind \<Rightarrow> pyval \<Rightarrow> optspec" where
  "opt d k v = \<lparr>dest = d, kind = k, dflt = v, choices = None, required = False\<rparr>"

definition parser_options :: "optspec list" where
  "parser_options =
    [opt ''dataset_name'' KStr PNone,
     opt ''max_length'' KInt (PInt 128),
     (opt ''model_name_or_path'' KStr PNone)\<lparr>required := True\<rparr>,
     opt ''per_device_train_batch_size'' KInt (PInt 8),
     opt ''per_device_eval_batch_size'' KInt (PInt 8),
     opt ''learning_rate'' KFloat (PFloat (5 / 100000)),
     opt ''weight_decay'' KFloat (PFloat 0),
     opt ''num_train_epochs'' KInt (PInt 3),
     opt ''max_train_steps'' KInt PNone,
     opt ''gradient_accumulation_steps'' KInt (PInt 1),
     (opt ''lr_scheduler_type'' KStr (PStr ''linear''))
       \<lparr>choices := Some [''linear'', ''cosine'', ''cosine_with_restarts'', ''polynomial'',
                          ''constant'', ''constant_with_warmup'']\<rparr>,
     opt ''num_warmup_steps'' KInt (PInt 0),
     opt ''output_dir'' KStr PNone,
     opt ''seed'' KInt PNone,
     opt ''push_to_hub'' KFlag (PBool False),
     opt ''hub_model_id'' KStr PNone,
     opt ''hub_token'' KStr PNone,
     opt ''checkpointing_steps'' KStr PNone,
     opt ''resume_from_checkpoint'' KStr PNone,
     opt ''with_tracking'' KFlag (PBool False),
     opt ''report_to'' KStr (PStr ''all''),
     opt ''use_peft'' KFlag (PBool False),
     (opt ''dataset_handling'' KStr (PStr ''memory''))
       \<lparr>choices := Some [''memory'', ''streaming'']\<rparr>]"

record cmdline =
  given :: "string \<Rightarrow> string option"
  flag :: "string \<Rightarrow> bool"

type_synonym namespace = "(string \<times> pyval) list"

definition bindE :: "py_error + 'a \<Rightarrow> ('a \<Rightarrow> py_error + 'b) \<Rightarrow> py_error + 'b" where
  "bindE m f = (case m of Inl e \<Rightarrow> Inl e | Inr x \<Rightarrow> f x)"

definition convert :: "(string \<Rightarrow> real option) \<Rightarrow> argkind \<Rightarrow> string \<Rightarrow> py_error + pyval" where
  "convert pf k s =
     (case k of
        KStr \<Rightarrow> Inr (PStr s)
      | KInt \<Rightarrow> (case py_int s of Inl e \<Rightarrow> Inl (SystemExit 2) | Inr i \<Rightarrow> Inr (PInt i))
      | KFloat \<Rightarrow> (case pf s of None \<Rightarrow> Inl (SystemExit 2) | Some x \<Rightarrow> Inr (PFloat x))
      | KFlag \<Rightarrow> Inl (SystemExit 2))"

definition parse_opt :: "(string \<Rightarrow> real option) \<Rightarrow> cmdline \<Rightarrow> optspec \<Rightarrow> py_error + pyval" where
  "parse_opt pf cl sp =
     (if kind sp = KFlag then Inr (PBool (flag cl (dest sp)))
      else case given cl (dest sp) of
             None \<Rightarrow> if required sp then Inl (SystemExit 2) else Inr (dflt sp)
           | Some s \<Rightarrow>
               bindE (convert pf (kind sp) s) (\<lambda>v.
                 case choices sp of
                   None \<Rightarrow> Inr v
                 | Some cs \<Rightarrow> if s \<in> set cs then Inr v else Inl (SystemExit 2)))"

fun parse_opts :: "(string \<Rightarrow> real option) \<Rightarrow> cmdline \<Rightarrow> optspec list \<Rightarrow> py_error + namespace" where
  "parse_opts pf cl [] = Inr []"
| "parse_opts pf cl (sp # sps) =
     bindE (parse_opt pf cl sp) (\<lambda>v.
       bindE (parse_opts pf cl sps) (\<lambda>ns. Inr ((dest sp, v) # ns)))"

text \<open>Attribute access on the namespace; a name that was never set raises.\<close>

definition getattr :: "namespace \<Rightarrow> string \<Rightarrow> py_error + pyval" where
  "getattr ns name = (case map_of ns name of None \<Rightarrow> Inl AttributeError | Some v \<Rightarrow> Inr v)"

definition setattr :: "namespace \<Rightarrow> string \<Rightarrow> pyval \<Rightarrow> namespace" where
  "setattr ns name v = AList.update name v ns"

text \<open>
  \<^verbatim>\<open>parse_args\<close>: after parsing, \<^verbatim>\<open>--push_to_hub\<close> without an \<^verbatim>\<open>output_dir\<close> fails the
  assertion.
\<close>

definition parse_args :: "(string \<Rightarrow> real option) \<Rightarrow> cmdline \<Rightarrow> py_error + namespace" where
  "parse_args pf cl =
     bindE (parse_opts pf cl parser_options) (\<lambda>args.
       bindE (getattr args ''push_to_hub'') (\<lambda>pth.
         bindE (getattr args ''output_dir'') (\<lambda>od.
           if truthy pth \<and> od = PNone then Inl AssertionError else Inr args)))"

section \<open>Step arithmetic and resumption in \<^verbatim>\<open>main\<close>\<close>

text \<open>An attribute that the code uses as a number or as a string.\<close>

definition as_int :: "pyval \<Rightarrow> py_error + int" where
  "as_int v = (case v of PInt i \<Rightarrow> Inr i | PBool b \<Rightarrow> Inr (if b then 1 else 0) | _ \<Rightarrow> Inl TypeError)"

definition as_str :: "pyval \<Rightarrow> py_error + string" where
  "as_str v = (case v of PStr s \<Rightarrow> Inr s | _ \<Rightarrow> Inl TypeError)"

definition attr_int :: "namespace \<Rightarrow> string \<Rightarrow> py_error + int" where
  "attr_int ns name = bindE (getattr ns name) as_int"

definition attr_str :: "namespace \<Rightarrow> string \<Rightarrow> py_error + string" where
  "attr_str ns name = bindE (getattr ns name) as_str"

text \<open>Floor division \<^verbatim>\<open>a // b\<close> of integers.\<close>

definition py_floordiv :: "int \<Rightarrow> int \<Rightarrow> py_error + int" where
  "py_floordiv a b = (if b = 0 then Inl ZeroDivisionError else Inr (a div b))"

text \<open>
  \<^verbatim>\<open>math.ceil(a / b)\<close> of integers, as the ceiling of the exact quotient (the float
  quotient of the source is exact enough for this below \<open>2\<^sup>5\<^sup>3\<close>).
\<close>

definition py_ceil_div :: "int \<Rightarrow> int \<Rightarrow> py_error + int" where
  "py_ceil_div a b = (if b = 0 then Inl ZeroDivisionError else Inr (- ((- a) div b)))"

text \<open>
  Lines 464 to 490: \<^verbatim>\<open>num_update_steps_per_epoch\<close>, \<^verbatim>\<open>max_train_steps\<close> and
  \<^verbatim>\<open>num_train_epochs\<close>.  The source computes the first two twice, around the call of
  \<^verbatim>\<open>accelerator.prepare\<close>, from the same values.
\<close>

definition steps_math :: "namespace \<Rightarrow> int \<Rightarrow> py_error + (namespace \<times> int)" where
  "steps_math args len_train =
     bindE (attr_int args ''gradient_accumulation_steps'') (\<lambda>g.
     bindE (py_ceil_div len_train g) (\<lambda>n1.
     bindE (getattr args ''max_train_steps'') (\<lambda>mts.
     bindE (attr_int args ''num_train_epochs'') (\<lambda>nte.
     let overrode_max_train_steps = (mts = PNone);
         mts1 = (if overrode_max_train_steps then PInt (nte * n1) else mts)
     in
     bindE (py_ceil_div len_train g) (\<lambda>num_update_steps_per_epoch.
     let mts2 = (if overrode_max_train_steps then PInt (nte * num_update_steps_per_epoch) else mts1)
     in
     bindE (as_int mts2) (\<lambda>m.
     bindE (py_ceil_div m num_update_steps_per_epoch) (\<lambda>nte'.
       Inr (setattr (setattr args ''max_train_steps'' mts2) ''num_train_epochs'' (PInt nte'),
            num_update_steps_per_epoch))))))))"

text \<open>
  Lines 536 to 566.  \<open>resume_step\<close> is \<open>None\<close> also where the source leaves the
  variable unbound (no resumption); it is read only when resuming.
  \<^verbatim>\<open>accelerator.load_state\<close> is a parameter that returns the exception it raises, if any.
  The inner test \<^verbatim>\<open>is not None or != ""\<close> holds for every value, so the branch that
  scans the working directory is never taken.
\<close>

record resume_state =
  completed_steps :: int
  starting_epoch :: int
  resume_step :: "int option"

definition resume_from ::
  "(string \<Rightarrow> py_error option) \<Rightarrow> namespace \<Rightarrow> int \<Rightarrow> int \<Rightarrow> py_error + resume_state" where
  "resume_from load_state args len_train num_update_steps_per_epoch =
     bindE (getattr args ''resume_from_checkpoint'') (\<lambda>rfc.
       if \<not> truthy rfc
       then Inr \<lparr>completed_steps = 0, starting_epoch = 0, resume_step = None\<rparr>
       else
         bindE (as_str rfc) (\<lambda>ckpt.
         case load_state ckpt of
           Some e \<Rightarrow> Inl e
         | None \<Rightarrow>
             let path = basename ckpt;
                 training_difference = splitext_root path
             in
             if str_contains ''epoch'' training_difference
             then
               bindE (py_int (py_replace training_difference ''epoch_'' [])) (\<lambda>i.
                 let starting_epoch = i + 1 in
                 Inr \<lparr>completed_steps = starting_epoch * num_update_steps_per_epoch,
                      starting_epoch = starting_epoch,
                      resume_step = None\<rparr>)
             else
               bindE (py_int (py_replace training_difference ''step_'' [])) (\<lambda>n.
               bindE (attr_int args ''gradient_accumulation_steps'') (\<lambda>g.
               let resume_step0 = n * g in
               bindE (py_floordiv resume_step0 len_train) (\<lambda>starting_epoch.
               let resume_step1 = resume_step0 - starting_epoch * len_train in
               bindE (attr_int args ''gradient_accumulation_stepp'') (\<lambda>g'.
               bindE (py_floordiv resume_step1 g') (\<lambda>completed.
                 Inr \<lparr>completed_steps = completed,
                      starting_epoch = starting_epoch,
                      resume_step = Some resume_step1\<rparr>)))))))"

definition main_resume ::
  "(string \<Rightarrow> py_error option) \<Rightarrow> namespace \<Rightarrow> int \<Rightarrow> py_error + resume_state" where
  "main_resume load_state args len_train =
     bindE (steps_math args len_train) (\<lambda>(args', n).
       resume_from load_state args' len_train n)"

text \<open>
  Lines 575 to 585, the data loader of one epoch.  A loader is the list of its
  batches; \<^verbatim>\<open>accelerator.skip_first_batches\<close> drops the first \<open>n\<close> of them.
\<close>

definition skip_first_batches :: "'b list \<Rightarrow> int \<Rightarrow> 'b list" where
  "skip_first_batches dl n = drop (nat n) dl"

definition active_dataloader :: "namespace \<Rightarrow> int \<Rightarrow> resume_state \<Rightarrow> 'b list \<Rightarrow> py_error + 'b list" where
  "active_dataloader args epoch st train_dataloader =
     bindE (getattr args ''resume_from_checkpoint'') (\<lambda>rfc.
       if truthy rfc \<and> epoch = starting_epoch st \<and> resume_step st \<noteq> None
       then Inr (skip_first_batches train_dataloader (the (resume_step st)))
       else Inr train_dataloader)"


section \<open>The start of \<^verbatim>\<open>main\<close>: from the command line to the datasets\<close>

text \<open>
  Lines 306 to 395.  What \<^verbatim>\<open>main\<close> does to the outside world is recorded as a list of
  events, in order; the libraries behind them are not modelled and are taken to succeed.
  An exception ends the run with the events performed so far.  The events that read
  data are the CSV load of the in-memory mode and, in the streaming mode, the first
  pull from each generator and the line count of the training file.
\<close>

datatype event =
    AcceleratorStarted
  | RepoCreated
  | OutputDirMade string
  | TokenizerLoaded string
  | CsvLoaded pyval string
  | GeneratorPulled pyval
  | ValidationGeneratorPulled string
  | LinesCounted pyval

fun is_data_loading :: "event \<Rightarrow> bool" where
  "is_data_loading (CsvLoaded _ _) = True"
| "is_data_loading (GeneratorPulled _) = True"
| "is_data_loading (ValidationGeneratorPulled _) = True"
| "is_data_loading (LinesCounted _) = True"
| "is_data_loading _ = False"

text \<open>Lines 331 to 351, the repository or the output directory.\<close>

definition prepare_output :: "namespace \<Rightarrow> py_error + event list" where
  "prepare_output args =
     bindE (getattr args ''push_to_hub'') (\<lambda>pth.
     bindE (getattr args ''output_dir'') (\<lambda>od.
       if truthy pth then Inr [RepoCreated]
       else if od \<noteq> PNone then bindE (as_str od) (\<lambda>d. Inr [OutputDirMade d])
       else Inr []))"

text \<open>Lines 357 to 395, the dispatch on \<^verbatim>\<open>args.dataset_handling\<close>.\<close>

definition load_datasets :: "namespace \<Rightarrow> py_error + event list" where
  "load_datasets args =
     bindE (getattr args ''dataset_handling'') (\<lambda>dh.
       if dh = PStr ''memory'' then
         bindE (getattr args ''dataset_name'') (\<lambda>name.
           Inr [CsvLoaded name ''../data/quora_dq_test.csv''])
       else if dh = PStr ''streaming'' then
         bindE (getattr args ''dataset_name'') (\<lambda>name.
           Inr [GeneratorPulled name,
                ValidationGeneratorPulled ''../data/quora_dq_test.csv'',
                LinesCounted name])
       else Inl ValueError)"

text \<open>
  The run up to line 396: the events performed, and the namespace or the exception
  that ended the run.
\<close>

definition main_prefix ::
  "(string \<Rightarrow> real option) \<Rightarrow> cmdline \<Rightarrow> event list \<times> (py_error + namespace)" where
  "main_prefix pf cl =
     (case parse_args pf cl of
        Inl e \<Rightarrow> ([], Inl e)
      | Inr args \<Rightarrow>
          (case prepare_output args of
             Inl e \<Rightarrow> ([AcceleratorStarted], Inl e)
           | Inr out \<Rightarrow>
               (case attr_str args ''model_name_or_path'' of
                  Inl e \<Rightarrow> (AcceleratorStarted # out, Inl e)
                | Inr m \<Rightarrow>
                    (case load_datasets args of
                       Inl e \<Rightarrow> (AcceleratorStarted # out @ [TokenizerLoaded m], Inl e)
                     | Inr evs \<Rightarrow>
                         (AcceleratorStarted # out @ [TokenizerLoaded m] @ evs, Inr args)))))"


section \<open>The checkpoint hooks\<close>

text \<open>
  \<^verbatim>\<open>save_model_hook(models, weights, output_dir)\<close>.  The list \<open>weights\<close> is shared
  with the caller and mutated in place, so the hook returns it, together with the calls
  of \<^verbatim>\<open>save_pretrained\<close> it made (model, state dict, directory) and the exception that
  ended it, if any.  \<^verbatim>\<open>weights[i]\<close> raises \<^verbatim>\<open>IndexError\<close> out of range and
  \<^verbatim>\<open>weights.pop()\<close> removes the last element.
\<close>

fun save_loop ::
  "(nat \<times> 'm) list \<Rightarrow> string \<Rightarrow> 'w list \<Rightarrow> ('m \<times> 'w \<times> string) list \<Rightarrow>
   py_error option \<times> 'w list \<times> ('m \<times> 'w \<times> string) list" where
  "save_loop [] output_dir weights saved = (None, weights, saved)"
| "save_loop ((i, model) # rest) output_dir weights saved =
     (if i < length weights
      then (if weights = []
            then (Some IndexError, weights, saved @ [(model, weights ! i, output_dir)])
            else save_loop rest output_dir (butlast weights)
                   (saved @ [(model, weights ! i, output_dir)]))
      else (Some IndexError, weights, saved))"

definition save_model_hook ::
  "'m list \<Rightarrow> 'w list \<Rightarrow> string \<Rightarrow> py_error option \<times> 'w list \<times> ('m \<times> 'w \<times> string) list" where
  "save_model_hook models weights output_dir =
     save_loop (enumerate 0 models) output_dir weights []"

text \<open>
  \<^verbatim>\<open>load_model_hook(models, input_dir)\<close>: the list \<open>models\<close> is emptied from its end;
  a model that has the two adapter attributes gets \<^verbatim>\<open>load_adapter\<close> called.  The hook
  returns the list as it leaves it and the calls made.
\<close>

function load_loop ::
  "('m \<Rightarrow> bool) \<Rightarrow> string \<Rightarrow> 'm list \<Rightarrow> ('m \<times> string) list \<Rightarrow> 'm list \<times> ('m \<times> string) list" where
  "load_loop has_adapter input_dir models loaded =
     (if length models > 0
      then load_loop has_adapter input_dir (butlast models)
             (if has_adapter (last models) then loaded @ [(last models, input_dir)] else loaded)
      else (models, loaded))"
  by pat_completeness auto
termination
  by (relation "measure (\<lambda>(h, d, models, loaded). length models)") auto

definition load_model_hook ::
  "('m \<Rightarrow> bool) \<Rightarrow> 'm list \<Rightarrow> string \<Rightarrow> 'm list \<times> ('m \<times> string) list" where
  "load_model_hook has_adapter models input_dir = load_loop has_adapter input_dir models []"


section \<open>Embeddings, similarity and loss\<close>

text \<open>
  A tensor of floats is a list (of lists) of real numbers: the arithmetic of the model
  is exact, and rounding, overflow and underflow of the floating-point formats are left
  out.  An integer tensor (labels, attention mask) is a list of integers, converted where
  the source multiplies it with floats or calls \<^verbatim>\<open>.float()\<close>.  The two arguments of an
  elementwise operation on matrices must have the same shape here, otherwise the model
  gives \<^verbatim>\<open>RuntimeError\<close> (the stretching of a dimension of size one is modelled only
  for the vectors of \<^verbatim>\<open>get_loss\<close>).
\<close>

type_synonym vec = "real list"

text \<open>\<^verbatim>\<open>get_cosing_embeddings\<close>: \<^verbatim>\<open>torch.sum(q1_embs * q2_embs, axis=1)\<close>.\<close>

definition get_cosing_embeddings :: "vec list \<Rightarrow> vec list \<Rightarrow> py_error + real list" where
  "get_cosing_embeddings q1_embs q2_embs =
     (if map length q1_embs = map length q2_embs
      then Inr (map2 (\<lambda>x y. sum_list (map2 (*) x y)) q1_embs q2_embs)
      else Inl RuntimeError)"

text \<open>
  Broadcasting of two vectors: equal lengths pair up, a vector of length one is
  repeated, anything else is a shape error.
\<close>

definition broadcast2 :: "'a list \<Rightarrow> 'b list \<Rightarrow> ('a \<times> 'b) list option" where
  "broadcast2 xs ys =
     (if length xs = length ys then Some (zip xs ys)
      else if length xs = 1 then Some (zip (replicate (length ys) (hd xs)) ys)
      else if length ys = 1 then Some (zip xs (replicate (length xs) (hd ys)))
      else None)"

text \<open>\<^verbatim>\<open>torch.mean\<close> of a vector; of an empty one it is \<^verbatim>\<open>nan\<close>, here \<open>None\<close>.\<close>

definition torch_mean :: "real list \<Rightarrow> real option" where
  "torch_mean xs = (if xs = [] then None else Some (sum_list xs / real (length xs)))"

text \<open>
  \<^verbatim>\<open>get_loss\<close>: the mean of the squares of
  \<^verbatim>\<open>labels * (1 - cosine_score) + clamp((1 - labels) * cosine_score, min=0.0)\<close>.
\<close>

definition get_loss :: "real list \<Rightarrow> int list \<Rightarrow> py_error + real option" where
  "get_loss cosine_score labels =
     (case broadcast2 cosine_score labels of
        None \<Rightarrow> Inl RuntimeError
      | Some ps \<Rightarrow>
          Inr (torch_mean
                 (map (\<lambda>(s, l). (real_of_int l * (1 - s) + max ((1 - real_of_int l) * s) 0)\<^sup>2) ps)))"

text \<open>
  \<^verbatim>\<open>mean_pooling\<close>.  \<open>token_embeddings\<close> has one matrix per example, a row of \<open>hidden\<close>
  numbers per token; \<open>attention_mask\<close> has one integer per token.  \<open>sum_tokens\<close> is
  \<^verbatim>\<open>torch.sum(..., 1)\<close>, the sum of the rows of one example.
\<close>

definition sum_tokens :: "nat \<Rightarrow> vec list \<Rightarrow> vec" where
  "sum_tokens hidden rows = foldr (map2 (+)) rows (replicate hidden 0)"

definition input_mask_expanded :: "nat \<Rightarrow> int list \<Rightarrow> vec list" where
  "input_mask_expanded hidden amask = map (\<lambda>m. replicate hidden (real_of_int m)) amask"

definition pool_numerator :: "nat \<Rightarrow> vec list \<Rightarrow> int list \<Rightarrow> vec" where
  "pool_numerator hidden tokens amask =
     sum_tokens hidden (map2 (map2 (*)) tokens (input_mask_expanded hidden amask))"

definition pool_denominator :: "nat \<Rightarrow> int list \<Rightarrow> vec" where
  "pool_denominator hidden amask =
     map (\<lambda>x. max x (1 / 10 ^ 9)) (sum_tokens hidden (input_mask_expanded hidden amask))"

definition well_shaped :: "nat \<Rightarrow> vec list list \<Rightarrow> int list list \<Rightarrow> bool" where
  "well_shaped hidden token_embeddings attention_mask =
     list_all2 (\<lambda>tokens amask. length tokens = length amask \<and>
                               list_all (\<lambda>v. length v = hidden) tokens)
       token_embeddings attention_mask"

definition mean_pooling :: "nat \<Rightarrow> vec list list \<Rightarrow> int list list \<Rightarrow> py_error + vec list" where
  "mean_pooling hidden token_embeddings attention_mask =
     (if well_shaped hidden token_embeddings attention_mask
      then Inr (map2 (\<lambda>tokens amask.
                  map2 (/) (pool_numerator hidden tokens amask) (pool_denominator hidden amask))
                token_embeddings attention_mask)
      else Inl RuntimeError)"

text \<open>
  \<^verbatim>\<open>torch.nn.functional.normalize(embeddings, p=2, dim=1)\<close> divides every row by its
  Euclidean norm, or by \<open>10\<^sup>-\<^sup>1\<^sup>2\<close> when the norm is smaller than that.
\<close>

definition l2_norm :: "vec \<Rightarrow> real" where
  "l2_norm v = sqrt (sum_list (map (\<lambda>x. x\<^sup>2) v))"

definition normalize_row :: "vec \<Rightarrow> vec" where
  "normalize_row v = map (\<lambda>x. x / max (l2_norm v) (1 / 10 ^ 12)) v"

text \<open>
  \<^verbatim>\<open>AutoModelForSentenceEmbedding.forward\<close>.  The wrapped transformer is the parameter
  \<open>encoder\<close>, from the inputs to the token embeddings.
\<close>

definition forward ::
  "nat \<Rightarrow> bool \<Rightarrow> ('i \<Rightarrow> vec list list) \<Rightarrow> 'i \<Rightarrow> int list list \<Rightarrow> py_error + vec list" where
  "forward hidden normalize_flag encoder inputs attention_mask =
     bindE (mean_pooling hidden (encoder inputs) attention_mask) (\<lambda>embeddings.
       Inr (if normalize_flag then map normalize_row embeddings else embeddings))"

text \<open>The cosine similarity of two vectors, for comparison with the dot product.\<close>

definition cosine_similarity :: "vec \<Rightarrow> vec \<Rightarrow> real" where
  "cosine_similarity x y = sum_list (map2 (*) x y) / (l2_norm x * l2_norm y)"


section \<open>The lazy record generator\<close>

text \<open>
  \<^verbatim>\<open>Path(file).stem\<close>: the last component of the path (empty components and \<^verbatim>\<open>.\<close> do
  not count), without its last suffix.
\<close>

fun split_on :: "char \<Rightarrow> string \<Rightarrow> string list" where
  "split_on c [] = [[]]"
| "split_on c (x # xs) =
     (if x = c then [] # split_on c xs
      else (case split_on c xs of [] \<Rightarrow> [[x]] | p # ps \<Rightarrow> (x # p) # ps))"

definition path_name :: "string \<Rightarrow> string" where
  "path_name p =
     (case filter (\<lambda>c. c \<noteq> [] \<and> c \<noteq> ''.'') (split_on CHR ''/'' p) of
        [] \<Rightarrow> []
      | c # cs \<Rightarrow> last (c # cs))"

definition path_stem :: "string \<Rightarrow> string" where
  "path_stem p =
     (let name = path_name p; i = rfind CHR ''.'' name
      in if 0 < i \<and> i < int (length name) - 1 then take (nat i) name else name)"

text \<open>
  The document store.  A TinyDB table is the list of its documents with their ids, in
  the order of insertion.  \<^verbatim>\<open>insert_multiple\<close> gives the new documents consecutive ids:
  the first id of an empty table is 1, otherwise the ids go on after the largest one.
  \<^verbatim>\<open>len(db)\<close> is the number of documents, and \<^verbatim>\<open>db.get(doc_ids=ids)\<close> returns the
  documents whose id is in \<open>ids\<close>, in the order of the table.  The store lives in a
  file of the working directory; the files are a map from names to tables.
\<close>

type_synonym 'r table = "(nat \<times> 'r) list"

type_synonym 'r files = "string \<Rightarrow> 'r table option"

definition next_id :: "'r table \<Rightarrow> nat" where
  "next_id t = (if t = [] then 1 else foldr max (map fst t) 0 + 1)"

definition insert_multiple :: "'r table \<Rightarrow> 'r list \<Rightarrow> 'r table" where
  "insert_multiple t docs = t @ zip [next_id t..<next_id t + length docs] docs"

definition db_get :: "'r table \<Rightarrow> nat list \<Rightarrow> 'r list" where
  "db_get t doc_ids = map snd (filter (\<lambda>(i, d). i \<in> set doc_ids) t)"

text \<open>\<^verbatim>\<open>range(0, n, step)\<close>.\<close>

definition range_step :: "nat \<Rightarrow> int \<Rightarrow> py_error + nat list" where
  "range_step n step =
     (if step = 0 then Inl ValueError
      else if step < 0 then Inr []
      else Inr (map (\<lambda>k. k * nat step) [0..<(n + nat step - 1) div nat step]))"

text \<open>
  \<^verbatim>\<open>iterable_dataset_generator(file, batch_size)\<close>, run to its end.  \<open>read_csv\<close> gives
  the rows of a file as records (\<^verbatim>\<open>pd.read_csv(file).to_dict(orient="records")\<close>) and
  \<open>shuffle\<close> is the outcome of \<^verbatim>\<open>random.shuffle\<close>; both are parameters.  The result
  is the list of the records yielded, or the exception raised, and the files as the
  generator leaves them.
\<close>

definition iterable_dataset_generator ::
  "(string \<Rightarrow> 'r list) \<Rightarrow> (nat list \<Rightarrow> nat list) \<Rightarrow> 'r files \<Rightarrow> string \<Rightarrow> int \<Rightarrow>
   (py_error + 'r list) \<times> 'r files" where
  "iterable_dataset_generator read_csv shuffle fs file batch_size =
     (let rows = read_csv file;
          store = path_stem file @ ''.json'';
          db = insert_multiple (case fs store of None \<Rightarrow> [] | Some t \<Rightarrow> t) rows;
          fs' = fs(store := Some db);
          ids = shuffle [0..<length db]
      in case range_step (length ids) batch_size of
           Inl e \<Rightarrow> (Inl e, fs')
         | Inr starts \<Rightarrow>
             (Inr (concat (map (\<lambda>i. db_get db (take (nat batch_size) (drop i ids))) starts)),
              fs'))"

text \<open>
  The generator invoked \<open>k\<close> times in a row on the same file, as when the streaming
  dataset is iterated once per epoch: the results of the invocations in order, and the
  files at the end.
\<close>

fun invocations ::
  "nat \<Rightarrow> (string \<Rightarrow> 'r list) \<Rightarrow> (nat list \<Rightarrow> nat list) \<Rightarrow> 'r files \<Rightarrow> string \<Rightarrow> int \<Rightarrow>
   (py_error + 'r list) list \<times> 'r files" where
  "invocations 0 read_csv shuffle fs file batch_size = ([], fs)"
| "invocations (Suc k) read_csv shuffle fs file batch_size =
     (case iterable_dataset_generator read_csv shuffle fs file batch_size of
        (y, fs') \<Rightarrow>
          (case invocations k read_csv shuffle fs' file batch_size of
             (ys, fs'') \<Rightarrow> (y # ys, fs'')))"


section \<open>Resuming from a checkpoint\<close>

subsection \<open>Auxiliary facts\<close>


lemma bindE_Inr [simp]: "bindE (Inr x) f = f x"
  by (simp add: bindE_def)

lemma bindE_Inl [simp]: "bindE (Inl e) f = Inl e"
  by (simp add: bindE_def)

lemma bindE_eq_Inr:
  "bindE m f = Inr y \<longleftrightarrow> (\<exists>x. m = Inr x \<and> f x = Inr y)"
  by (cases m) simp_all

lemma rfind_absent: "c \<notin> set s \<Longrightarrow> rfind c s = - 1"
proof -
  assume "c \<notin> set s"
  then have "filter (\<lambda>i. s ! i = c) (rev [0..<length s]) = []"
    by (auto simp: filter_empty_conv)
  then show ?thesis by (simp add: rfind_def)
qed

lemma is_digit_not_special:
  "is_digit c \<Longrightarrow> c \<noteq> CHR ''/'' \<and> c \<noteq> CHR ''.'' \<and> c \<noteq> CHR ''_'' \<and> c \<noteq> CHR ''-''
     \<and> c \<noteq> CHR ''+'' \<and> c \<noteq> CHR ''e'' \<and> c \<noteq> CHR ''s'' \<and> \<not> is_space c"
  by (auto simp: is_digit_def is_space_def)

lemma digits_no_char:
  assumes "list_all is_digit ds" and "\<not> is_digit c"
  shows "c \<notin> set ds"
  using assms by (auto simp: list_all_iff)

lemma replace_ne_absent:
  "old \<noteq> [] \<Longrightarrow> hd old \<notin> set s \<Longrightarrow> replace_ne old new s = s"
proof (induction s)
  case Nil
  then show ?case by simp
next
  case (Cons c cs)
  from Cons.prems have "\<not> startswith (c # cs) old"
    by (cases old) (auto simp: startswith_def)
  with Cons show ?case by simp
qed

lemma strip_digits:
  assumes "list_all is_digit ds"
  shows "strip ds = ds"
proof (cases ds rule: rev_cases)
  case Nil
  then show ?thesis by (simp add: strip_def)
next
  case (snoc xs x)
  with assms have x: "\<not> is_space x" by (simp add: is_digit_not_special)
  show ?thesis
  proof (cases ds)
    case Nil
    then show ?thesis by (simp add: strip_def)
  next
    case (Cons y ys)
    with assms have "\<not> is_space y" by (simp add: is_digit_not_special)
    with Cons have "dropWhile is_space ds = ds" by simp
    moreover from snoc x have "dropWhile is_space (rev ds) = rev ds" by simp
    ultimately show ?thesis by (simp add: strip_def)
  qed
qed

lemma no_double_underscore_digits:
  "list_all is_digit ds \<Longrightarrow> no_double_underscore ds"
  by (induction ds rule: no_double_underscore.induct) (auto simp: is_digit_not_special)

lemma py_int_digits:
  assumes "ds \<noteq> []" and "list_all is_digit ds"
  shows "py_int ds = Inr (dec_value ds)"
proof -
  from assms obtain d ds' where ds: "ds = d # ds'" by (cases ds) auto
  with assms have d: "is_digit d" by simp
  from assms have l: "is_digit (last ds)"
    by (metis last_in_set list_all_iff)
  have v: "valid_digits ds"
    using assms d l ds no_double_underscore_digits[OF assms(2)]
    by (auto simp: valid_digits_def list_all_iff)
  have f: "filter (\<lambda>c. c \<noteq> CHR ''_'') ds = ds"
    using assms(2) by (auto simp: filter_id_conv list_all_iff is_digit_not_special)
  have h: "hd ds \<noteq> CHR ''-''" "hd ds \<noteq> CHR ''+''"
    using d ds by (auto simp: is_digit_not_special)
  show ?thesis
    using v f h assms(1) by (simp add: py_int_def strip_digits[OF assms(2)])
qed

lemma rfind_ge: "- 1 \<le> rfind c s"
  by (simp add: rfind_def split: list.splits)

lemma splitext_root_plain:
  assumes "CHR ''.'' \<notin> set p"
  shows "splitext_root p = p"
proof -
  have "rfind CHR ''.'' p = - 1" using assms by (rule rfind_absent)
  moreover have "- 1 \<le> rfind CHR ''/'' p" by (rule rfind_ge)
  ultimately show ?thesis by (simp add: splitext_root_def Let_def)
qed


lemma py_ceil_div_ceiling:
  "py_ceil_div a b = Inr n \<Longrightarrow> b \<noteq> 0 \<and> n = \<lceil>real_of_int a / real_of_int b\<rceil>"
proof -
  assume h: "py_ceil_div a b = Inr n"
  then have b: "b \<noteq> 0" by (auto simp: py_ceil_div_def split: if_splits)
  from h b have "n = - ((- a) div b)" by (simp add: py_ceil_div_def)
  also have "\<dots> = - \<lfloor>real_of_int (- a) / real_of_int b\<rfloor>"
    by (simp only: floor_divide_of_int_eq)
  also have "\<dots> = \<lceil>real_of_int a / real_of_int b\<rceil>"
    by (simp add: ceiling_def)
  finally show ?thesis using b by simp
qed

lemma getattr_setattr:
  "getattr (setattr ns k v) name = (if name = k then Inr v else getattr ns name)"
  by (simp add: getattr_def setattr_def update_conv')

lemma steps_math_result:
  assumes "steps_math args len_train = Inr (args', n)"
  shows "(\<exists>g. attr_int args ''gradient_accumulation_steps'' = Inr g \<and> g \<noteq> 0 \<and>
              n = \<lceil>real_of_int len_train / real_of_int g\<rceil>) \<and>
         (\<forall>name. name \<noteq> ''max_train_steps'' \<and> name \<noteq> ''num_train_epochs'' \<longrightarrow>
              getattr args' name = getattr args name)"
proof -
  from assms obtain g n1 mts nte n2 m nte' mts2 where
    g: "attr_int args ''gradient_accumulation_steps'' = Inr g"
    and n2: "py_ceil_div len_train g = Inr n2"
    and res: "args' = setattr (setattr args ''max_train_steps'' mts2) ''num_train_epochs'' (PInt nte')"
    and n: "n = n2"
    by (auto simp: steps_math_def bindE_eq_Inr Let_def)
  from py_ceil_div_ceiling[OF n2] g n
  have "\<exists>g. attr_int args ''gradient_accumulation_steps'' = Inr g \<and> g \<noteq> 0 \<and>
              n = \<lceil>real_of_int len_train / real_of_int g\<rceil>"
    by auto
  moreover have "\<forall>name. name \<noteq> ''max_train_steps'' \<and> name \<noteq> ''num_train_epochs'' \<longrightarrow>
              getattr args' name = getattr args name"
    unfolding res by (simp add: getattr_setattr)
  ultimately show ?thesis by blast
qed

lemma epoch_name_parse:
  assumes "ds \<noteq> []" and "list_all is_digit ds"
  shows "splitext_root (''epoch_'' @ ds) = ''epoch_'' @ ds"
    and "str_contains ''epoch'' (''epoch_'' @ ds)"
    and "py_int (py_replace (''epoch_'' @ ds) ''epoch_'' []) = Inr (dec_value ds)"
proof -
  have nd: "CHR ''.'' \<notin> set ds" "CHR ''e'' \<notin> set ds"
    using assms(2) by (auto simp: list_all_iff dest: is_digit_not_special)
  then show "splitext_root (''epoch_'' @ ds) = ''epoch_'' @ ds"
    by (intro splitext_root_plain) simp
  show "str_contains ''epoch'' (''epoch_'' @ ds)"
    by (simp add: startswith_def)
  have "replace_ne ''epoch_'' [] (''epoch_'' @ ds) = replace_ne ''epoch_'' [] ds"
    by (simp add: startswith_def)
  also have "\<dots> = ds" using nd by (intro replace_ne_absent) simp_all
  finally have "py_replace (''epoch_'' @ ds) ''epoch_'' [] = ds"
    by (simp add: py_replace_def)
  then show "py_int (py_replace (''epoch_'' @ ds) ''epoch_'' []) = Inr (dec_value ds)"
    using py_int_digits[OF assms] by simp
qed



lemmas parse_eval =
  parse_args_def parser_options_def opt_def parse_opt_def convert_def getattr_def
  py_int_def strip_def is_space_def valid_digits_def is_digit_def dec_value_def digit_val_def

lemmas resume_eval =
  main_resume_def steps_math_def resume_from_def attr_int_def as_int_def as_str_def
  py_ceil_div_def py_floordiv_def getattr_def setattr_def basename_def splitext_root_def
  rfind_def startswith_def py_replace_def py_int_def strip_def is_space_def valid_digits_def
  is_digit_def dec_value_def digit_val_def Let_def

lemma parse_opts_keys:
  "parse_opts pf cl sps = Inr ns \<Longrightarrow> map fst ns = map dest sps"
  by (induction sps arbitrary: ns) (auto simp: bindE_eq_Inr)

lemma parse_args_no_misspelt_attribute:
  assumes "parse_args pf cl = Inr args"
  shows "getattr args ''gradient_accumulation_stepp'' = Inl AttributeError"
proof -
  from assms have "parse_opts pf cl parser_options = Inr args"
    by (auto simp: parse_args_def bindE_eq_Inr split: if_splits)
  then have "map fst args = map dest parser_options" by (rule parse_opts_keys)
  then have "fst ` set args = set (map dest parser_options)"
    by (metis set_map)
  then have "''gradient_accumulation_stepp'' \<notin> fst ` set args"
    by (simp add: parser_options_def opt_def)
  then have "map_of args ''gradient_accumulation_stepp'' = None"
    by (simp add: map_of_eq_None_iff)
  then show ?thesis by (simp add: getattr_def)
qed

text \<open>
  No resumption from a step checkpoint gets past line 566: whatever the command line,
  the checkpoint and the size of the training set, the attribute
  \<^verbatim>\<open>gradient_accumulation_stepp\<close> does not exist, so the run ends in an exception
  (of \<^verbatim>\<open>int\<close>, of the division by \<open>len_train\<close>, or this \<^verbatim>\<open>AttributeError\<close>).
\<close>

lemma step_resume_always_raises:
  assumes "parse_args pf cl = Inr args"
    and "getattr args ''resume_from_checkpoint'' = Inr (PStr ckpt)"
    and "ckpt \<noteq> []"
    and "\<not> str_contains ''epoch'' (splitext_root (basename ckpt))"
  shows "\<exists>e. main_resume load_state args len_train = Inl e"
proof (cases "steps_math args len_train")
  case (Inl e)
  then show ?thesis by (simp add: main_resume_def)
next
  case (Inr r)
  obtain args' n where r: "r = (args', n)" by (cases r)
  note sm = steps_math_result[OF Inr[unfolded r]]
  from sm assms(2) have rfc: "getattr args' ''resume_from_checkpoint'' = Inr (PStr ckpt)"
    by simp
  from sm parse_args_no_misspelt_attribute[OF assms(1)]
  have typo: "attr_int args' ''gradient_accumulation_stepp'' = Inl AttributeError"
    by (simp add: attr_int_def)
  have "\<exists>e. resume_from load_state args' len_train n = Inl e"
    using rfc assms(3,4) typo
    by (auto simp: resume_from_def as_str_def Let_def bindE_def
        split: sum.splits option.splits)
  then show ?thesis using Inr r by (simp add: main_resume_def)
qed

subsection \<open>Claims\<close>

text \<open>
  Claim C6.  Resuming from a checkpoint whose basename is \<^verbatim>\<open>epoch_<i>\<close> (\<open>ds\<close> are the
  decimal digits of \<open>i\<close>, \<open>dec_value ds\<close> is \<open>i\<close>): whenever the step arithmetic
  before it succeeds with \<open>n\<close> update steps per epoch and the state loads, the
  starting epoch is \<open>i + 1\<close>, the completed steps are \<open>(i + 1) * n\<close>, where \<open>n\<close> is
  the ceiling of \<open>len_train\<close> over the gradient accumulation factor, and no
  batch is skipped in any epoch: the loader of every epoch is the whole training loader.
\<close>

theorem resume_from_epoch_checkpoint:
  assumes "steps_math args len_train = Inr (args', n)"
    and "getattr args ''resume_from_checkpoint'' = Inr (PStr ckpt)"
    and "basename ckpt = ''epoch_'' @ ds"
    and "ds \<noteq> []"
    and "list_all is_digit ds"
    and "load_state ckpt = None"
  shows "main_resume load_state args len_train =
           Inr \<lparr>completed_steps = (dec_value ds + 1) * n,
                starting_epoch = dec_value ds + 1,
                resume_step = None\<rparr> \<and>
         (\<exists>g. attr_int args ''gradient_accumulation_steps'' = Inr g \<and> g \<noteq> 0 \<and>
              n = \<lceil>real_of_int len_train / real_of_int g\<rceil>) \<and>
         (\<forall>epoch dl. active_dataloader args' epoch
              \<lparr>completed_steps = (dec_value ds + 1) * n,
               starting_epoch = dec_value ds + 1,
               resume_step = None\<rparr> dl = Inr dl)"
proof -
  note sm = steps_math_result[OF assms(1)]
  from sm assms(2) have rfc: "getattr args' ''resume_from_checkpoint'' = Inr (PStr ckpt)"
    by simp
  from assms(3) have ne: "ckpt \<noteq> []" by (auto simp: basename_def)
  have "resume_from load_state args' len_train n =
          Inr \<lparr>completed_steps = (dec_value ds + 1) * n,
               starting_epoch = dec_value ds + 1,
               resume_step = None\<rparr>"
    using rfc ne assms(3,6) epoch_name_parse[OF assms(4,5)]
    by (simp add: resume_from_def as_str_def Let_def)
  then have "main_resume load_state args len_train =
          Inr \<lparr>completed_steps = (dec_value ds + 1) * n,
               starting_epoch = dec_value ds + 1,
               resume_step = None\<rparr>"
    using assms(1) by (simp add: main_resume_def)
  moreover have "\<forall>epoch dl. active_dataloader args' epoch
              \<lparr>completed_steps = (dec_value ds + 1) * n,
               starting_epoch = dec_value ds + 1,
               resume_step = None\<rparr> dl = Inr dl"
    using rfc by (simp add: active_dataloader_def)
  ultimately show ?thesis using sm by blast
qed

theorem resume_from_epoch_checkpoint_witness:
  "main_resume (\<lambda>_. None)
     [(''num_train_epochs'', PInt 3), (''max_train_steps'', PNone),
      (''gradient_accumulation_steps'', PInt 2),
      (''resume_from_checkpoint'', PStr ''out/epoch_3'')] 1000
   = Inr \<lparr>completed_steps = 2000, starting_epoch = 4, resume_step = None\<rparr>"
proof -
  let ?args = "[(''num_train_epochs'', PInt 3), (''max_train_steps'', PNone),
      (''gradient_accumulation_steps'', PInt 2),
      (''resume_from_checkpoint'', PStr ''out/epoch_3'')]"
  let ?args' = "[(''num_train_epochs'', PInt 3), (''max_train_steps'', PInt 1500),
      (''gradient_accumulation_steps'', PInt 2),
      (''resume_from_checkpoint'', PStr ''out/epoch_3'')]"
  have 1: "steps_math ?args 1000 = Inr (?args', 500)"
    by (simp add: steps_math_def attr_int_def as_int_def getattr_def setattr_def
        py_ceil_div_def Let_def)
  have 2: "getattr ?args ''resume_from_checkpoint'' = Inr (PStr ''out/epoch_3'')"
    by (simp add: getattr_def)
  have 3: "basename ''out/epoch_3'' = ''epoch_'' @ ''3''"
    by (simp add: basename_def rfind_def)
  have 4: "''3'' \<noteq> []" by simp
  have 5: "list_all is_digit ''3''" by (simp add: is_digit_def)
  have 6: "(\<lambda>_. None :: py_error option) ''out/epoch_3'' = None" by simp
  have 7: "dec_value ''3'' = 3" by (simp add: dec_value_def digit_val_def)
  note r = conjunct1[OF resume_from_epoch_checkpoint[OF 1 2 3 4 5, of "\<lambda>_. None", OF 6]]
  show ?thesis using r by (simp add: 7)
qed

text \<open>
  Claim C1.  Resuming from \<^verbatim>\<open>step_250\<close> with gradient accumulation factor 2 and a
  training set of 1000 examples: the code computes \<open>resume_step = 500\<close> and the
  starting epoch 0, and then reads \<^verbatim>\<open>args.gradient_accumulation_stepp\<close>, an attribute
  the parser never defines.  The run ends with \<^verbatim>\<open>AttributeError\<close>; no completed-step
  counter is set and no batch is skipped.
\<close>

theorem resume_from_step_checkpoint_raises:
  "bindE (parse_args (\<lambda>_. None)
            \<lparr>given = map_of [(''model_name_or_path'', ''m''),
                             (''gradient_accumulation_steps'', ''2''),
                             (''resume_from_checkpoint'', ''out/step_250'')],
             flag = (\<lambda>_. False)\<rparr>)
         (\<lambda>args. main_resume (\<lambda>_. None) args 1000)
   = Inl AttributeError"
  by (simp add: parse_eval resume_eval)


section \<open>The \<^verbatim>\<open>dataset_handling\<close> option\<close>

subsection \<open>Auxiliary facts about the parser\<close>


lemma parse_opt_error: "parse_opt pf cl sp = Inl e \<Longrightarrow> e = SystemExit 2"
  by (auto simp: parse_opt_def convert_def bindE_def
      split: if_splits option.splits sum.splits argkind.splits)

lemma parse_opts_error: "parse_opts pf cl sps = Inl e \<Longrightarrow> e = SystemExit 2"
proof (induction sps arbitrary: e)
  case Nil
  then show ?case by simp
next
  case (Cons sp sps)
  then show ?case
    by (cases "parse_opt pf cl sp"; cases "parse_opts pf cl sps")
       (auto dest: parse_opt_error)
qed

lemma parse_opts_fails:
  "sp \<in> set sps \<Longrightarrow> parse_opt pf cl sp = Inl e \<Longrightarrow> parse_opts pf cl sps = Inl (SystemExit 2)"
proof (induction sps)
  case Nil
  then show ?case by simp
next
  case (Cons a sps)
  show ?case
  proof (cases "parse_opts pf cl (a # sps)")
    case (Inl e')
    then show ?thesis using parse_opts_error by blast
  next
    case (Inr ns)
    then obtain v ns' where a: "parse_opt pf cl a = Inr v" and r: "parse_opts pf cl sps = Inr ns'"
      by (auto simp: bindE_eq_Inr)
    from Cons.prems a have "sp \<in> set sps" by auto
    from Cons.IH[OF this Cons.prems(2)] r show ?thesis by simp
  qed
qed

lemma parse_opts_value:
  "parse_opts pf cl sps = Inr ns \<Longrightarrow> sp \<in> set sps \<Longrightarrow> distinct (map dest sps) \<Longrightarrow>
   \<exists>v. parse_opt pf cl sp = Inr v \<and> map_of ns (dest sp) = Some v"
proof (induction sps arbitrary: ns)
  case Nil
  then show ?case by simp
next
  case (Cons a sps)
  from Cons.prems(1) obtain v ns' where a: "parse_opt pf cl a = Inr v"
    and r: "parse_opts pf cl sps = Inr ns'" and ns: "ns = (dest a, v) # ns'"
    by (auto simp: bindE_eq_Inr)
  show ?case
  proof (cases "sp = a")
    case True
    then show ?thesis using a ns by simp
  next
    case False
    with Cons.prems have in_sps: "sp \<in> set sps" and d: "distinct (map dest sps)"
      and na: "dest a \<notin> dest ` set sps" by auto
    from in_sps na have ne: "dest sp \<noteq> dest a" by (metis imageI)
    from Cons.IH[OF r in_sps d] ne ns show ?thesis by auto
  qed
qed


lemma dests_distinct: "distinct (map dest parser_options)"
  by (simp add: parser_options_def opt_def)

lemma parse_args_attr:
  assumes "parse_args pf cl = Inr args" and "sp \<in> set parser_options"
  shows "\<exists>v. parse_opt pf cl sp = Inr v \<and> getattr args (dest sp) = Inr v"
proof -
  from assms(1) have "parse_opts pf cl parser_options = Inr args"
    by (auto simp: parse_args_def bindE_eq_Inr split: if_splits)
  from parse_opts_value[OF this assms(2) dests_distinct]
  show ?thesis by (auto simp: getattr_def)
qed

lemma invalid_choice_exits:
  assumes "given cl ''dataset_handling'' = Some v"
    and "v \<noteq> ''memory''" and "v \<noteq> ''streaming''"
  shows "parse_args pf cl = Inl (SystemExit 2)"
proof -
  let ?sp = "(opt ''dataset_handling'' KStr (PStr ''memory''))
               \<lparr>choices := Some [''memory'', ''streaming'']\<rparr>"
  have "parse_opt pf cl ?sp = Inl (SystemExit 2)"
    using assms by (simp add: parse_opt_def opt_def convert_def)
  moreover have "?sp \<in> set parser_options"
    by (simp add: parser_options_def)
  ultimately have "parse_opts pf cl parser_options = Inl (SystemExit 2)"
    by (rule parse_opts_fails[rotated])
  then show ?thesis by (simp add: parse_args_def)
qed

lemma valid_choice_loads:
  assumes "given cl ''dataset_handling'' = None \<or>
           given cl ''dataset_handling'' = Some ''memory'' \<or>
           given cl ''dataset_handling'' = Some ''streaming''"
    and "parse_args pf cl = Inr args"
  shows "\<exists>evs. main_prefix pf cl = (evs, Inr args) \<and> list_ex is_data_loading evs"
proof -
  have "opt ''push_to_hub'' KFlag (PBool False) \<in> set parser_options"
    by (simp add: parser_options_def)
  from parse_args_attr[OF assms(2) this]
  obtain b where pth: "getattr args ''push_to_hub'' = Inr (PBool b)"
    by (auto simp: parse_opt_def opt_def)
  have "opt ''output_dir'' KStr PNone \<in> set parser_options"
    by (simp add: parser_options_def)
  from parse_args_attr[OF assms(2) this]
  obtain od where od: "getattr args ''output_dir'' = Inr od" "od = PNone \<or> (\<exists>d. od = PStr d)"
    by (auto simp: parse_opt_def opt_def convert_def split: option.splits)
  have "(opt ''model_name_or_path'' KStr PNone)\<lparr>required := True\<rparr> \<in> set parser_options"
    by (simp add: parser_options_def)
  from parse_args_attr[OF assms(2) this]
  obtain m where m: "getattr args ''model_name_or_path'' = Inr (PStr m)"
    by (auto simp: parse_opt_def opt_def convert_def split: option.splits)
  have "opt ''dataset_name'' KStr PNone \<in> set parser_options"
    by (simp add: parser_options_def)
  from parse_args_attr[OF assms(2) this]
  obtain dn where dn: "getattr args ''dataset_name'' = Inr dn"
    by (auto simp: opt_def)
  have "(opt ''dataset_handling'' KStr (PStr ''memory''))
               \<lparr>choices := Some [''memory'', ''streaming'']\<rparr> \<in> set parser_options"
    by (simp add: parser_options_def)
  from parse_args_attr[OF assms(2) this] assms(1)
  have dh: "getattr args ''dataset_handling'' = Inr (PStr ''memory'') \<or>
            getattr args ''dataset_handling'' = Inr (PStr ''streaming'')"
    by (auto simp: parse_opt_def opt_def convert_def)
  have "\<exists>out. prepare_output args = Inr out"
    using pth od by (cases b) (auto simp: prepare_output_def as_str_def)
  then obtain out where out: "prepare_output args = Inr out" ..
  have "\<exists>evs. load_datasets args = Inr evs \<and> list_ex is_data_loading evs"
    using dh dn by (auto simp: load_datasets_def)
  then obtain evs where evs: "load_datasets args = Inr evs" "list_ex is_data_loading evs"
    by blast
  from out m evs assms(2) show ?thesis
    by (simp add: main_prefix_def attr_str_def as_str_def)
qed

subsection \<open>Claim\<close>

text \<open>
  Claim C8.  A \<^verbatim>\<open>dataset_handling\<close> value other than \<^verbatim>\<open>memory\<close> and \<^verbatim>\<open>streaming\<close> ends
  the run in the parser, with \<^verbatim>\<open>SystemExit(2)\<close> and before any event at all, so before
  any data is loaded, whatever the other options are.  The dispatch in \<^verbatim>\<open>main\<close> is a
  second guard: on any other value of the attribute it raises \<^verbatim>\<open>ValueError\<close> instead
  of loading.  For the two valid values, and for the default, every command line that
  the parser accepts reaches the data loading and raises no error up to there.
\<close>

theorem dataset_handling_checked_before_loading:
  "(given cl ''dataset_handling'' = Some v \<and> v \<noteq> ''memory'' \<and> v \<noteq> ''streaming'' \<longrightarrow>
      main_prefix pf cl = ([], Inl (SystemExit 2))) \<and>
   (getattr args ''dataset_handling'' = Inr x \<and> x \<noteq> PStr ''memory'' \<and> x \<noteq> PStr ''streaming'' \<longrightarrow>
      load_datasets args = Inl ValueError) \<and>
   ((given cl ''dataset_handling'' = None \<or>
     given cl ''dataset_handling'' = Some ''memory'' \<or>
     given cl ''dataset_handling'' = Some ''streaming'') \<and>
    parse_args pf cl = Inr args \<longrightarrow>
      (\<exists>evs. main_prefix pf cl = (evs, Inr args) \<and> list_ex is_data_loading evs))"
proof (intro conjI impI)
  assume "given cl ''dataset_handling'' = Some v \<and> v \<noteq> ''memory'' \<and> v \<noteq> ''streaming''"
  then have "parse_args pf cl = Inl (SystemExit 2)"
    by (intro invalid_choice_exits) auto
  then show "main_prefix pf cl = ([], Inl (SystemExit 2))"
    by (simp add: main_prefix_def)
next
  assume "getattr args ''dataset_handling'' = Inr x \<and> x \<noteq> PStr ''memory'' \<and> x \<noteq> PStr ''streaming''"
  then show "load_datasets args = Inl ValueError"
    by (simp add: load_datasets_def)
next
  assume "(given cl ''dataset_handling'' = None \<or>
     given cl ''dataset_handling'' = Some ''memory'' \<or>
     given cl ''dataset_handling'' = Some ''streaming'') \<and>
    parse_args pf cl = Inr args"
  then show "\<exists>evs. main_prefix pf cl = (evs, Inr args) \<and> list_ex is_data_loading evs"
    using valid_choice_loads by blast
qed



theorem dataset_handling_checked_before_loading_witness:
  "main_prefix (\<lambda>_. None)
     \<lparr>given = map_of [(''model_name_or_path'', ''m''), (''dataset_handling'', ''disk'')],
      flag = (\<lambda>_. False)\<rparr> = ([], Inl (SystemExit 2)) \<and>
   load_datasets [(''dataset_handling'', PStr ''disk'')] = Inl ValueError \<and>
   (\<exists>evs args. main_prefix (\<lambda>_. None)
     \<lparr>given = map_of [(''model_name_or_path'', ''m''), (''dataset_name'', ''train.csv''),
                      (''dataset_handling'', ''streaming'')],
      flag = (\<lambda>_. False)\<rparr> = (evs, Inr args) \<and> list_ex is_data_loading evs)"
proof -
  let ?bad = "\<lparr>given = map_of [(''model_name_or_path'', ''m''), (''dataset_handling'', ''disk'')],
      flag = (\<lambda>_. False)\<rparr>"
  let ?ok = "\<lparr>given = map_of [(''model_name_or_path'', ''m''), (''dataset_name'', ''train.csv''),
                      (''dataset_handling'', ''streaming'')],
      flag = (\<lambda>_. False)\<rparr>"
  have a: "given ?bad ''dataset_handling'' = Some ''disk'' \<and> ''disk'' \<noteq> ''memory'' \<and>
           ''disk'' \<noteq> ''streaming''"
    by simp
  have b: "getattr [(''dataset_handling'', PStr ''disk'')] ''dataset_handling'' = Inr (PStr ''disk'') \<and>
           PStr ''disk'' \<noteq> PStr ''memory'' \<and> PStr ''disk'' \<noteq> PStr ''streaming''"
    by (simp add: getattr_def)
  have "\<exists>args. parse_args (\<lambda>_. None) ?ok = Inr args"
    by (simp add: parse_args_def parser_options_def opt_def parse_opt_def convert_def getattr_def)
  then obtain args where p: "parse_args (\<lambda>_. None) ?ok = Inr args" ..
  have c: "(given ?ok ''dataset_handling'' = None \<or>
            given ?ok ''dataset_handling'' = Some ''memory'' \<or>
            given ?ok ''dataset_handling'' = Some ''streaming'') \<and>
           parse_args (\<lambda>_. None) ?ok = Inr args"
    using p by simp
  from dataset_handling_checked_before_loading[of ?bad "''disk''" "\<lambda>_. None"] a
  have 1: "main_prefix (\<lambda>_. None) ?bad = ([], Inl (SystemExit 2))" by blast
  from dataset_handling_checked_before_loading[of _ _ _ "[(''dataset_handling'', PStr ''disk'')]" "PStr ''disk''"] b
  have 2: "load_datasets [(''dataset_handling'', PStr ''disk'')] = Inl ValueError" by blast
  from dataset_handling_checked_before_loading[of ?ok _ "\<lambda>_. None" args] c
  have 3: "\<exists>evs. main_prefix (\<lambda>_. None) ?ok = (evs, Inr args) \<and> list_ex is_data_loading evs"
    by blast
  from 1 2 3 show ?thesis by blast
qed


section \<open>Saving and loading through the hooks\<close>

subsection \<open>Auxiliary facts\<close>

text \<open>
  With one model and one state dict, which is what \<^verbatim>\<open>main\<close> prepares, the save hook
  saves the model with its state dict and leaves the list empty.  With as many state
  dicts as models and at least two of them, the hook always ends in \<^verbatim>\<open>IndexError\<close>.
  The load hook empties its list and loads each model that has an adapter once, last
  model first.
\<close>


declare load_loop.simps [simp del]

lemma save_loop_overruns:
  "length ws + 1 < i + 2 * length ms \<Longrightarrow> i \<le> length ws + 1 \<Longrightarrow>
   fst (save_loop (enumerate i ms) out ws saved) = Some IndexError"
proof (induction ms arbitrary: i ws saved)
  case Nil
  then show ?case by simp
next
  case (Cons m ms)
  show ?case
  proof (cases "i < length ws")
    case True
    then have ne: "ws \<noteq> []" by auto
    have "fst (save_loop (enumerate (Suc i) ms) out (butlast ws)
                 (saved @ [(m, ws ! i, out)])) = Some IndexError"
      using Cons.prems True by (intro Cons.IH) auto
    then show ?thesis using True ne by simp
  next
    case False
    then show ?thesis by simp
  qed
qed

lemma save_model_hook_two_or_more:
  assumes "length weights = length models" and "2 \<le> length models"
  shows "fst (save_model_hook models weights out) = Some IndexError"
  unfolding save_model_hook_def using assms by (intro save_loop_overruns) auto

lemma save_model_hook_single:
  "save_model_hook [m] [w] out = (None, [], [(m, w, out)])"
  by (simp add: save_model_hook_def)

lemma load_loop_all:
  "load_loop has d ms loaded = ([], loaded @ map (\<lambda>m. (m, d)) (filter has (rev ms)))"
proof (induction ms arbitrary: loaded rule: rev_induct)
  case Nil
  then show ?case by (simp add: load_loop.simps)
next
  case (snoc x xs)
  show ?case
    by (subst load_loop.simps) (simp add: snoc.IH)
qed

lemma load_model_hook_pops_all:
  "load_model_hook has ms d = ([], map (\<lambda>m. (m, d)) (filter has (rev ms)))"
  by (simp add: load_model_hook_def load_loop_all)

subsection \<open>Claim\<close>

text \<open>
  Claim C3.  The save hook on two models with their two state dicts: the first model
  is saved with its own state dict, then \<^verbatim>\<open>weights.pop()\<close> removes the last entry, which
  is the state dict of the second model, and \<^verbatim>\<open>weights[1]\<close> raises \<^verbatim>\<open>IndexError\<close>.
  The second model is never saved and the first state dict stays in the list.
\<close>

theorem save_model_hook_two_models:
  "save_model_hook [''model0'', ''model1''] [''state0'', ''state1''] ''out'' =
     (Some IndexError, [''state0''], [(''model0'', ''state0'', ''out'')])"
  by (simp add: save_model_hook_def)


section \<open>The loss\<close>

subsection \<open>Auxiliary facts\<close>

lemma get_loss_sum:
  assumes "length labels = length cosine_score" and "cosine_score \<noteq> []"
  shows "get_loss cosine_score labels =
           Inr (Some ((\<Sum>i<length labels.
                  (real_of_int (labels ! i) * (1 - cosine_score ! i) +
                   max 0 ((1 - real_of_int (labels ! i)) * cosine_score ! i))\<^sup>2)
                / real (length labels)))"
proof -
  let ?f = "\<lambda>(s, l). (real_of_int l * (1 - s) + max ((1 - real_of_int l) * s) 0)\<^sup>2"
  let ?ps = "zip cosine_score labels"
  have len: "length ?ps = length labels" using assms by simp
  have "sum_list (map ?f ?ps) = (\<Sum>i<length ?ps. map ?f ?ps ! i)"
    by (simp add: sum_list_sum_nth atLeast0LessThan)
  also have "\<dots> = (\<Sum>i<length labels.
                  (real_of_int (labels ! i) * (1 - cosine_score ! i) +
                   max 0 ((1 - real_of_int (labels ! i)) * cosine_score ! i))\<^sup>2)"
    using assms by (intro sum.cong) (auto simp: max.commute)
  finally have s: "sum_list (map ?f ?ps) = (\<Sum>i<length labels.
                  (real_of_int (labels ! i) * (1 - cosine_score ! i) +
                   max 0 ((1 - real_of_int (labels ! i)) * cosine_score ! i))\<^sup>2)" .
  have ne: "?ps \<noteq> []" using assms by (cases cosine_score; cases labels) auto
  show ?thesis
    using assms ne s len by (simp add: get_loss_def broadcast2_def torch_mean_def)
qed




subsection \<open>Claims\<close>

text \<open>
  Claim C2.  For a vector of cosine scores and a vector of labels of the same, non-zero
  length, \<^verbatim>\<open>get_loss\<close> returns the mean over the pairs of
  \<open>(label * (1 - score) + max 0 ((1 - label) * score))\<^sup>2\<close>.  A pair with label 1 and
  score 0.2 contributes 0.64, a pair with label 0 and score 0.3 contributes 0.09, a pair
  with label 0 and score -0.3 contributes 0, and the batch of these three pairs has the
  mean of the three contributions as its loss.
\<close>

theorem get_loss_is_mean_of_squares:
  "(length labels = length cosine_score \<and> cosine_score \<noteq> [] \<longrightarrow>
      get_loss cosine_score labels =
        Inr (Some ((\<Sum>i<length labels.
               (real_of_int (labels ! i) * (1 - cosine_score ! i) +
                max 0 ((1 - real_of_int (labels ! i)) * cosine_score ! i))\<^sup>2)
             / real (length labels)))) \<and>
   get_loss [2 / 10] [1] = Inr (Some (64 / 100)) \<and>
   get_loss [3 / 10] [0] = Inr (Some (9 / 100)) \<and>
   get_loss [- 3 / 10] [0] = Inr (Some 0) \<and>
   get_loss [2 / 10, 3 / 10, - 3 / 10] [1, 0, 0] = Inr (Some ((64 / 100 + 9 / 100 + 0) / 3))"
proof (intro conjI impI)
  assume "length labels = length cosine_score \<and> cosine_score \<noteq> []"
  then show "get_loss cosine_score labels =
        Inr (Some ((\<Sum>i<length labels.
               (real_of_int (labels ! i) * (1 - cosine_score ! i) +
                max 0 ((1 - real_of_int (labels ! i)) * cosine_score ! i))\<^sup>2)
             / real (length labels)))"
    using get_loss_sum by blast
qed (simp_all add: get_loss_def broadcast2_def torch_mean_def power2_eq_square)

theorem get_loss_is_mean_of_squares_witness:
  "get_loss [2 / 10, 1] [1, 1] = Inr (Some (32 / 100))"
proof -
  have h: "length [1, 1 :: int] = length [2 / 10, 1 :: real] \<and> [2 / 10, 1 :: real] \<noteq> []"
    by simp
  from get_loss_is_mean_of_squares[of "[1, 1]" "[2 / 10, 1]"] h
  have "get_loss [2 / 10, 1] [1, 1] =
        Inr (Some ((\<Sum>i<length [1, 1 :: int].
               (real_of_int ([1, 1] ! i) * (1 - [2 / 10, 1] ! i) +
                max 0 ((1 - real_of_int ([1, 1] ! i)) * [2 / 10, 1] ! i))\<^sup>2)
             / real (length [1, 1 :: int])))"
    by blast
  then show ?thesis
    by (simp add: lessThan_Suc numeral_2_eq_2 power2_eq_square)
qed




section \<open>Pooling, normalisation and similarity\<close>

subsection \<open>Auxiliary facts\<close>



lemma sum_tokens_nth:
  assumes "list_all (\<lambda>v. length v = hidden) rows"
  shows "length (sum_tokens hidden rows) = hidden \<and>
         (\<forall>d<hidden. sum_tokens hidden rows ! d = (\<Sum>t<length rows. rows ! t ! d))"
  using assms
proof (induction rows)
  case Nil
  then show ?case by (simp add: sum_tokens_def)
next
  case (Cons r rows)
  then have IH: "length (sum_tokens hidden rows) = hidden"
    "\<And>d. d < hidden \<Longrightarrow> sum_tokens hidden rows ! d = (\<Sum>t<length rows. rows ! t ! d)"
    and r: "length r = hidden"
    by auto
  have step: "sum_tokens hidden (r # rows) = map2 (+) r (sum_tokens hidden rows)"
    by (simp add: sum_tokens_def)
  show ?case
  proof (intro conjI allI impI)
    show "length (sum_tokens hidden (r # rows)) = hidden"
      using IH(1) r by (simp add: step)
    fix d assume d: "d < hidden"
    have "sum_tokens hidden (r # rows) ! d = r ! d + sum_tokens hidden rows ! d"
      using d IH(1) r by (simp add: step)
    also have "\<dots> = r ! d + (\<Sum>t<length rows. rows ! t ! d)"
      using IH(2)[OF d] by simp
    also have "\<dots> = (\<Sum>t<length (r # rows). (r # rows) ! t ! d)"
      by (simp add: sum.lessThan_Suc_shift del: sum.lessThan_Suc)
    finally show "sum_tokens hidden (r # rows) ! d = (\<Sum>t<length (r # rows). (r # rows) ! t ! d)" .
  qed
qed

lemma pool_denominator_nth:
  "length (pool_denominator hidden amask) = hidden \<and>
   (\<forall>d<hidden. pool_denominator hidden amask ! d =
       max (\<Sum>t<length amask. real_of_int (amask ! t)) (1 / 10 ^ 9))"
proof -
  let ?rows = "input_mask_expanded hidden amask"
  have a: "list_all (\<lambda>v. length v = hidden) ?rows"
    by (simp add: input_mask_expanded_def list_all_iff)
  have l: "length ?rows = length amask" by (simp add: input_mask_expanded_def)
  have n: "\<And>t d. t < length amask \<Longrightarrow> d < hidden \<Longrightarrow> ?rows ! t ! d = real_of_int (amask ! t)"
    by (simp add: input_mask_expanded_def)
  from sum_tokens_nth[OF a] l
  have s: "length (sum_tokens hidden ?rows) = hidden"
    "\<And>d. d < hidden \<Longrightarrow> sum_tokens hidden ?rows ! d = (\<Sum>t<length amask. ?rows ! t ! d)"
    by auto
  have "\<And>d. d < hidden \<Longrightarrow> sum_tokens hidden ?rows ! d = (\<Sum>t<length amask. real_of_int (amask ! t))"
    using s(2) n by simp
  then show ?thesis using s(1) by (simp add: pool_denominator_def)
qed

lemma pool_denominator_floor:
  "x \<in> set (pool_denominator hidden amask) \<Longrightarrow> 1 / 10 ^ 9 \<le> x \<and> 0 < x"
proof -
  assume "x \<in> set (pool_denominator hidden amask)"
  then obtain y where "x = max y (1 / 10 ^ 9)" by (auto simp: pool_denominator_def)
  then have "(1 / 10 ^ 9 :: real) \<le> x" by simp
  moreover have "(0::real) < 1 / 10 ^ 9" by simp
  ultimately show ?thesis by linarith
qed

lemma pool_numerator_nth:
  assumes "length tokens = length amask" and "list_all (\<lambda>v. length v = hidden) tokens"
  shows "length (pool_numerator hidden tokens amask) = hidden \<and>
         (\<forall>d<hidden. pool_numerator hidden tokens amask ! d =
             (\<Sum>t<length amask. tokens ! t ! d * real_of_int (amask ! t)))"
proof -
  let ?rows = "map2 (map2 (*)) tokens (input_mask_expanded hidden amask)"
  have l: "length ?rows = length amask"
    using assms(1) by (simp add: input_mask_expanded_def)
  have tl: "\<And>t. t < length amask \<Longrightarrow> length (tokens ! t) = hidden"
    using assms by (simp add: list_all_length)
  have a: "list_all (\<lambda>v. length v = hidden) ?rows"
    using assms(1) tl by (simp add: list_all_length input_mask_expanded_def)
  have n: "\<And>t d. t < length amask \<Longrightarrow> d < hidden \<Longrightarrow>
             ?rows ! t ! d = tokens ! t ! d * real_of_int (amask ! t)"
    using assms(1) tl by (simp add: input_mask_expanded_def)
  from sum_tokens_nth[OF a] l
  have s: "length (sum_tokens hidden ?rows) = hidden"
    "\<And>d. d < hidden \<Longrightarrow> sum_tokens hidden ?rows ! d = (\<Sum>t<length amask. ?rows ! t ! d)"
    by auto
  have "\<And>d. d < hidden \<Longrightarrow> sum_tokens hidden ?rows ! d =
          (\<Sum>t<length amask. tokens ! t ! d * real_of_int (amask ! t))"
    using s(2) n by simp
  then show ?thesis using s(1) by (simp add: pool_numerator_def)
qed



lemmas pool_eval =
  mean_pooling_def well_shaped_def pool_numerator_def pool_denominator_def sum_tokens_def
  input_mask_expanded_def numeral_2_eq_2

lemma sum_squares_nonneg: "0 \<le> sum_list (map (\<lambda>x. x\<^sup>2) (v :: real list))"
  by (induction v) auto

lemma l2_norm_nonneg: "0 \<le> l2_norm v"
  by (simp add: l2_norm_def sum_squares_nonneg)

lemma l2_norm_scaled: "0 \<le> c \<Longrightarrow> l2_norm (map (\<lambda>x. x / c) v) = l2_norm v / c"
proof -
  assume c: "0 \<le> c"
  have "sum_list (map (\<lambda>x. (x / c)\<^sup>2) v) = sum_list (map (\<lambda>x. x\<^sup>2) v) / c\<^sup>2"
    by (induction v) (simp_all add: power_divide add_divide_distrib)
  then have "l2_norm (map (\<lambda>x. x / c) v) = sqrt (sum_list (map (\<lambda>x. x\<^sup>2) v) / c\<^sup>2)"
    by (simp add: l2_norm_def comp_def)
  also have "\<dots> = l2_norm v / c"
    using c by (simp add: l2_norm_def real_sqrt_divide)
  finally show ?thesis .
qed

lemma normalize_row_unit:
  assumes "1 / 10 ^ 12 \<le> l2_norm v"
  shows "l2_norm (normalize_row v) = 1"
proof -
  have pos: "0 < l2_norm v" using assms by (smt (verit) divide_pos_pos zero_less_power)
  have "normalize_row v = map (\<lambda>x. x / l2_norm v) v"
    using assms by (simp add: normalize_row_def max_def)
  then have "l2_norm (normalize_row v) = l2_norm v / l2_norm v"
    using l2_norm_scaled[of "l2_norm v" v] pos by simp
  then show ?thesis using pos by simp
qed

lemma normalize_row_small:
  assumes "l2_norm v < 1 / 10 ^ 12"
  shows "normalize_row v = map (\<lambda>x. x * 10 ^ 12) v"
    and "l2_norm (normalize_row v) = l2_norm v * 10 ^ 12"
    and "l2_norm (normalize_row v) < 1"
proof -
  have m: "max (l2_norm v) (1 / 10 ^ 12) = 1 / 10 ^ 12" using assms by (simp add: max_def)
  have e: "normalize_row v = map (\<lambda>x. x / (1 / 10 ^ 12)) v"
    unfolding normalize_row_def m ..
  then show r: "normalize_row v = map (\<lambda>x. x * 10 ^ 12) v"
    by simp
  note e
  then have "l2_norm (normalize_row v) = l2_norm v / (1 / 10 ^ 12)"
    using l2_norm_scaled[of "1 / 10 ^ 12" v] by simp
  then show n: "l2_norm (normalize_row v) = l2_norm v * 10 ^ 12" by simp
  from assms have "l2_norm v * 10 ^ 12 < 1" by (simp add: pos_less_divide_eq)
  with n show "l2_norm (normalize_row v) < 1" by simp
qed

lemma dot_sum_nth:
  "length x = length y \<Longrightarrow> sum_list (map2 (*) x y) = (\<Sum>i<length x. x ! i * y ! i :: real)"
  by (simp add: sum_list_sum_nth atLeast0LessThan)

lemma get_cosing_embeddings_dot:
  assumes "map length q1 = map length q2"
  shows "get_cosing_embeddings q1 q2 =
           Inr (map2 (\<lambda>x y. \<Sum>i<length x. x ! i * y ! i) q1 q2)"
proof -
  have "\<And>x y. (x, y) \<in> set (zip q1 q2) \<Longrightarrow> length x = length y"
  proof -
    fix x y assume "(x, y) \<in> set (zip q1 q2)"
    then obtain i where i: "i < length q1" "i < length q2" "x = q1 ! i" "y = q2 ! i"
      by (auto simp: set_zip)
    from assms i have "map length q1 ! i = map length q2 ! i" by simp
    with i show "length x = length y" by simp
  qed
  then have "map2 (\<lambda>x y. sum_list (map2 (*) x y)) q1 q2 =
             map2 (\<lambda>x y. \<Sum>i<length x. x ! i * y ! i) q1 q2"
    by (intro map_cong) (auto simp: dot_sum_nth)
  then show ?thesis using assms by (simp add: get_cosing_embeddings_def)
qed

subsection \<open>Claims\<close>

text \<open>
  Claim C7.  For token embeddings and an attention mask of matching shapes, whatever the
  entries of the mask (all zero included), \<^verbatim>\<open>mean_pooling\<close> returns one vector per
  example; its entry \<open>d\<close> is the sum over the tokens of the token's entry \<open>d\<close> times
  the token's mask, divided by the sum of the mask clamped below by \<open>10\<^sup>-\<^sup>9\<close>.  Every
  denominator of the division is at least \<open>10\<^sup>-\<^sup>9\<close>, so it is never zero.
\<close>

theorem mean_pooling_clamped_mean:
  assumes "well_shaped hidden token_embeddings attention_mask"
  shows "\<exists>pooled. mean_pooling hidden token_embeddings attention_mask = Inr pooled \<and>
           length pooled = length token_embeddings \<and>
           (\<forall>b<length token_embeddings.
              length (pooled ! b) = hidden \<and>
              list_all (\<lambda>x. 1 / 10 ^ 9 \<le> x \<and> 0 < x) (pool_denominator hidden (attention_mask ! b)) \<and>
              (\<forall>d<hidden.
                 pool_denominator hidden (attention_mask ! b) ! d =
                   max (\<Sum>t<length (attention_mask ! b). real_of_int (attention_mask ! b ! t))
                       (1 / 10 ^ 9) \<and>
                 pooled ! b ! d =
                   (\<Sum>t<length (attention_mask ! b).
                       token_embeddings ! b ! t ! d * real_of_int (attention_mask ! b ! t))
                   / max (\<Sum>t<length (attention_mask ! b). real_of_int (attention_mask ! b ! t))
                         (1 / 10 ^ 9)))"
proof -
  let ?pooled = "map2 (\<lambda>tokens amask.
                  map2 (/) (pool_numerator hidden tokens amask) (pool_denominator hidden amask))
                token_embeddings attention_mask"
  from assms have len: "length token_embeddings = length attention_mask"
    by (simp add: well_shaped_def list_all2_lengthD)
  have ws: "\<And>b. b < length token_embeddings \<Longrightarrow>
              length (token_embeddings ! b) = length (attention_mask ! b) \<and>
              list_all (\<lambda>v. length v = hidden) (token_embeddings ! b)"
    using assms by (simp add: well_shaped_def list_all2_conv_all_nth)
  have res: "mean_pooling hidden token_embeddings attention_mask = Inr ?pooled"
    using assms by (simp add: mean_pooling_def)
  have lp: "length ?pooled = length token_embeddings" using len by simp
  have main: "\<forall>b<length token_embeddings.
              length (?pooled ! b) = hidden \<and>
              list_all (\<lambda>x. 1 / 10 ^ 9 \<le> x \<and> 0 < x) (pool_denominator hidden (attention_mask ! b)) \<and>
              (\<forall>d<hidden.
                 pool_denominator hidden (attention_mask ! b) ! d =
                   max (\<Sum>t<length (attention_mask ! b). real_of_int (attention_mask ! b ! t))
                       (1 / 10 ^ 9) \<and>
                 ?pooled ! b ! d =
                   (\<Sum>t<length (attention_mask ! b).
                       token_embeddings ! b ! t ! d * real_of_int (attention_mask ! b ! t))
                   / max (\<Sum>t<length (attention_mask ! b). real_of_int (attention_mask ! b ! t))
                         (1 / 10 ^ 9))"
  proof (intro allI impI)
    fix b assume b: "b < length token_embeddings"
    let ?tok = "token_embeddings ! b" and ?m = "attention_mask ! b"
    from ws[OF b] have w: "length ?tok = length ?m" "list_all (\<lambda>v. length v = hidden) ?tok"
      by auto
    note num = pool_numerator_nth[OF w]
    note den = pool_denominator_nth[of hidden ?m]
    have pb: "?pooled ! b = map2 (/) (pool_numerator hidden ?tok ?m) (pool_denominator hidden ?m)"
      using b len by simp
    have fl: "list_all (\<lambda>x. 1 / 10 ^ 9 \<le> x \<and> 0 < x) (pool_denominator hidden ?m)"
      using pool_denominator_floor by (auto simp: list_all_iff)
    show "length (?pooled ! b) = hidden \<and>
              list_all (\<lambda>x. 1 / 10 ^ 9 \<le> x \<and> 0 < x) (pool_denominator hidden ?m) \<and>
              (\<forall>d<hidden.
                 pool_denominator hidden ?m ! d =
                   max (\<Sum>t<length ?m. real_of_int (?m ! t)) (1 / 10 ^ 9) \<and>
                 ?pooled ! b ! d =
                   (\<Sum>t<length ?m. ?tok ! t ! d * real_of_int (?m ! t))
                   / max (\<Sum>t<length ?m. real_of_int (?m ! t)) (1 / 10 ^ 9))"
    proof (intro conjI allI impI)
      show "length (?pooled ! b) = hidden" using num den by (simp add: pb)
      show "list_all (\<lambda>x. 1 / 10 ^ 9 \<le> x \<and> 0 < x) (pool_denominator hidden ?m)" by (rule fl)
    next
      fix d assume d: "d < hidden"
      from den d show "pool_denominator hidden ?m ! d =
                   max (\<Sum>t<length ?m. real_of_int (?m ! t)) (1 / 10 ^ 9)" by simp
      from num den d have "?pooled ! b ! d =
          pool_numerator hidden ?tok ?m ! d / pool_denominator hidden ?m ! d"
        by (simp add: pb)
      also from num den d have "\<dots> = (\<Sum>t<length ?m. ?tok ! t ! d * real_of_int (?m ! t))
                   / max (\<Sum>t<length ?m. real_of_int (?m ! t)) (1 / 10 ^ 9)"
        by simp
      finally show "?pooled ! b ! d =
                   (\<Sum>t<length ?m. ?tok ! t ! d * real_of_int (?m ! t))
                   / max (\<Sum>t<length ?m. real_of_int (?m ! t)) (1 / 10 ^ 9)" .
    qed
  qed
  show ?thesis
    by (rule exI[of _ ?pooled], intro conjI) (rule res, rule lp, rule main)
qed

theorem mean_pooling_clamped_mean_witness:
  "mean_pooling 2 [[[1, 2], [3, 4]]] [[0, 0]] = Inr [[0, 0]] \<and>
   mean_pooling 2 [[[1, 2], [3, 4]]] [[1, 1]] = Inr [[2, 3]] \<and>
   list_all (\<lambda>x. 1 / 10 ^ 9 \<le> x \<and> 0 < x) (pool_denominator 2 [0, 0])"
proof -
  have ws: "well_shaped 2 [[[1, 2], [3, 4]]] [[0, 0]]"
    by (simp add: well_shaped_def)
  from mean_pooling_clamped_mean[OF ws]
  have "list_all (\<lambda>x. 1 / 10 ^ 9 \<le> x \<and> 0 < x) (pool_denominator 2 ([[0, 0]] ! 0))"
    by auto
  then have d: "list_all (\<lambda>x. 1 / 10 ^ 9 \<le> x \<and> 0 < x) (pool_denominator 2 [0, 0])"
    by simp
  have a: "mean_pooling 2 [[[1, 2], [3, 4]]] [[0, 0]] = Inr [[0, 0]]"
    by (simp add: pool_eval)
  have b: "mean_pooling 2 [[[1, 2], [3, 4]]] [[1, 1]] = Inr [[2, 3]]"
    by (simp add: pool_eval)
  from a b d show ?thesis by blast
qed

text \<open>
  Claim C9, as stated, says that the forward pass makes its outputs unit vectors exactly
  when the \<open>normalize\<close> flag is true.  With the flag true and an all-zero attention
  mask the output is the zero vector, whose norm is not 1; with the flag false the
  output can be a unit vector all the same.
\<close>

theorem forward_normalize_flag_counterexample:
  "forward 2 True id [[[3, 4]]] [[0]] = Inr [[0, 0]] \<and> l2_norm [0, 0] \<noteq> 1 \<and>
   forward 2 False id [[[1, 0]]] [[1]] = Inr [[1, 0]] \<and> l2_norm [1, 0] = 1"
  by (simp add: forward_def pool_eval normalize_row_def l2_norm_def)

text \<open>
  Claim C9, amended.  \<^verbatim>\<open>get_cosing_embeddings\<close> returns, per example, the raw dot
  product of the two rows, with no normalisation of its inputs; for two rows of norm 1
  this is their cosine similarity.  The forward pass with \<open>normalize\<close> false returns
  the pooled rows unchanged; with \<open>normalize\<close> true it returns each pooled row
  divided by the larger of its norm and \<open>10\<^sup>-\<^sup>1\<^sup>2\<close>: a row of norm at least
  \<open>10\<^sup>-\<^sup>1\<^sup>2\<close> becomes a unit vector, a shorter one (the zero row of an all-zero mask
  among them) is multiplied by \<open>10\<^sup>1\<^sup>2\<close> and stays shorter than 1.
\<close>

theorem dot_product_cosine_for_unit_rows:
  "(map length q1 = map length q2 \<longrightarrow>
      get_cosing_embeddings q1 q2 = Inr (map2 (\<lambda>x y. \<Sum>i<length x. x ! i * y ! i) q1 q2)) \<and>
   (l2_norm x = 1 \<and> l2_norm y = 1 \<longrightarrow>
      sum_list (map2 (*) x y) = cosine_similarity x y) \<and>
   (mean_pooling hidden (encoder inputs) attention_mask = Inr pooled \<longrightarrow>
      forward hidden False encoder inputs attention_mask = Inr pooled \<and>
      forward hidden True encoder inputs attention_mask = Inr (map normalize_row pooled) \<and>
      (\<forall>b<length pooled.
         (1 / 10 ^ 12 \<le> l2_norm (pooled ! b) \<longrightarrow> l2_norm (normalize_row (pooled ! b)) = 1) \<and>
         (l2_norm (pooled ! b) < 1 / 10 ^ 12 \<longrightarrow>
            normalize_row (pooled ! b) = map (\<lambda>x. x * 10 ^ 12) (pooled ! b) \<and>
            l2_norm (normalize_row (pooled ! b)) < 1)))"
proof (intro conjI impI allI)
  assume "map length q1 = map length q2"
  then show "get_cosing_embeddings q1 q2 =
      Inr (map2 (\<lambda>x y. \<Sum>i<length x. x ! i * y ! i) q1 q2)"
    by (rule get_cosing_embeddings_dot)
next
  assume "l2_norm x = 1 \<and> l2_norm y = 1"
  then show "sum_list (map2 (*) x y) = cosine_similarity x y"
    by (simp add: cosine_similarity_def)
next
  assume p: "mean_pooling hidden (encoder inputs) attention_mask = Inr pooled"
  then show "forward hidden False encoder inputs attention_mask = Inr pooled"
    by (simp add: forward_def)
  from p show "forward hidden True encoder inputs attention_mask = Inr (map normalize_row pooled)"
    by (simp add: forward_def)
next
  fix b
  assume "1 / 10 ^ 12 \<le> l2_norm (pooled ! b)"
  then show "l2_norm (normalize_row (pooled ! b)) = 1" by (rule normalize_row_unit)
next
  fix b
  assume s: "l2_norm (pooled ! b) < 1 / 10 ^ 12"
  then show "normalize_row (pooled ! b) = map (\<lambda>x. x * 10 ^ 12) (pooled ! b)"
    by (rule normalize_row_small)
  from s show "l2_norm (normalize_row (pooled ! b)) < 1" by (rule normalize_row_small)
qed

theorem dot_product_cosine_for_unit_rows_witness:
  "get_cosing_embeddings [[3 / 5, 4 / 5]] [[1, 0]] = Inr [3 / 5] \<and>
   cosine_similarity [3 / 5, 4 / 5] [1, 0] = 3 / 5 \<and>
   forward 2 True id [[[3, 4]]] [[1]] = Inr [normalize_row [3, 4]] \<and>
   l2_norm (normalize_row [3, 4]) = 1 \<and>
   forward 2 False id [[[3, 4]]] [[1]] = Inr [[3, 4]]"
proof -
  have n1: "l2_norm [3 / 5, 4 / 5] = 1"
    by (simp add: l2_norm_def power2_eq_square)
  have n2: "l2_norm [1, 0] = 1" by (simp add: l2_norm_def)
  have n3: "l2_norm [3, 4] = 5"
  proof -
    have "l2_norm [3, 4] = sqrt (5\<^sup>2)" by (simp add: l2_norm_def)
    then show ?thesis by simp
  qed
  have sh: "map length [[3 / 5, 4 / 5 :: real]] = map length [[1, 0 :: real]]" by simp
  have p: "mean_pooling 2 (id [[[3, 4]]]) [[1]] = Inr [[3, 4]]"
    by (simp add: pool_eval)
  note t = dot_product_cosine_for_unit_rows
  note t1 = conjunct1[OF t, THEN mp]
  note t2 = conjunct1[OF conjunct2[OF t], THEN mp]
  note t3 = conjunct2[OF conjunct2[OF t[where encoder = id and inputs = "[[[3, 4]]]"]], THEN mp]
  have 1: "get_cosing_embeddings [[3 / 5, 4 / 5]] [[1, 0]] = Inr [3 / 5]"
    using t1[OF sh] by (simp add: lessThan_Suc numeral_2_eq_2)
  have 2: "cosine_similarity [3 / 5, 4 / 5] [1, 0] = 3 / 5"
    using t2[OF conjI[OF n1 n2]] by simp
  note f = t3[OF p]
  have 3: "forward 2 True id [[[3, 4]]] [[1]] = Inr [normalize_row [3, 4]]"
    using f by simp
  have 5: "forward 2 False id [[[3, 4]]] [[1]] = Inr [[3, 4]]"
    using f by simp
  have "(1::real) / 10 ^ 12 \<le> 5" by simp
  then have 4: "l2_norm (normalize_row [3, 4]) = 1"
    using f n3 by auto
  from 1 2 3 4 5 show ?thesis by blast
qed

end
